theory Spec2Isabelle
  imports Complex_Main "HOL-Library.Sublist" "HOL-Library.Multiset" "HOL-Library.Word"
begin

section \<open>Restriction-enzyme digestion and gel rendering (backend/app.py)\<close>

text \<open>
  A Python \<open>str\<close> is modelled as \<open>string\<close>, one \<open>char\<close> per character of the
  Python string. Indices and lengths are natural numbers: every index the code builds is
  a sum of a \<open>range\<close> index and a length.
\<close>

subsection \<open>Module constants\<close>

text \<open>
  \<open>ENZYMES\<close> is a dict literal; Python dicts keep insertion order, and
  \<open>list(ENZYMES.keys())\<close> reads that order, so the table is an association list.
\<close>

definition ENZYMES :: "(string \<times> string) list" where
  "ENZYMES =
     [(''EcoRI'', ''GAATTC''),
      (''HindIII'', ''AAGCTT''),
      (''BamHI'', ''GGATCC''),
      (''PstI'', ''CTGCAG'')]"

definition DNA_LADDER :: "int list" where
  "DNA_LADDER = [1000, 500, 200, 100, 50]"

text \<open>\<open>ENZYMES.get(enzyme, fallback)\<close>.\<close>

definition ENZYMES_get :: "string \<Rightarrow> string \<Rightarrow> string" where
  "ENZYMES_get enzyme fallback =
     (case map_of ENZYMES enzyme of Some enzyme_seq \<Rightarrow> enzyme_seq | None \<Rightarrow> fallback)"

text \<open>\<open>enzyme in ENZYMES\<close>.\<close>

definition in_ENZYMES :: "string \<Rightarrow> bool" where
  "in_ENZYMES enzyme = (map_of ENZYMES enzyme \<noteq> None)"

subsection \<open>The digestion engine: \<open>cut_dna\<close>\<close>

text \<open>
  The \<open>enzymes\<close> argument is a single name (a \<open>str\<close>) or a list of names;
  \<open>cut_dna\<close> wraps a single name into a one-element list.
\<close>

datatype enzymes_arg = Name string | Names "string list"

fun as_list :: "enzymes_arg \<Rightarrow> string list" where
  "as_list (Name enzyme) = [enzyme]"
| "as_list (Names enzymes) = enzymes"

text \<open>
  \<open>sequence.startswith(enzyme_seq, i)\<close> for \<open>0 \<le> i \<le> len(sequence)\<close>: the
  sequence read from index \<open>i\<close> begins with \<open>enzyme_seq\<close>. The code calls it
  with \<open>i\<close> in \<open>range(len(sequence))\<close> only.
\<close>

definition startswith :: "string \<Rightarrow> string \<Rightarrow> nat \<Rightarrow> bool" where
  "startswith s p i = prefix p (drop i s)"

text \<open>
  The \<open>for enzyme in enzymes\<close> loop, with \<open>cut_positions\<close> as the accumulator that
  \<open>extend\<close> appends to. An enzyme whose looked-up sequence is empty (a name that is
  not in the table) is skipped.
\<close>

fun scan_enzymes :: "string \<Rightarrow> string list \<Rightarrow> nat list \<Rightarrow> nat list" where
  "scan_enzymes sequence [] cut_positions = cut_positions"
| "scan_enzymes sequence (enzyme # rest) cut_positions =
     (let enzyme_seq = ENZYMES_get enzyme [] in
      scan_enzymes sequence rest
        (if enzyme_seq \<noteq> []
         then cut_positions @
                [i + length enzyme_seq. i \<leftarrow> [0..<length sequence],
                   startswith sequence enzyme_seq i]
         else cut_positions))"

text \<open>\<open>cut_positions = sorted(list(set(cut_positions)))\<close>: deduplicated, ascending.\<close>

definition cut_positions :: "string \<Rightarrow> enzymes_arg \<Rightarrow> nat list" where
  "cut_positions sequence enzymes =
     sorted_list_of_set (set (scan_enzymes sequence (as_list enzymes) []))"

text \<open>
  \<open>sequence[i:j]\<close> for a non-negative \<open>i\<close> and an end \<open>j\<close> that is a non-negative
  integer or \<open>None\<close> (the end of the string). Python clamps both to the length.
\<close>

definition slice :: "string \<Rightarrow> nat \<Rightarrow> nat option \<Rightarrow> string" where
  "slice s i j = (case j of None \<Rightarrow> drop i s | Some j' \<Rightarrow> drop i (take j' s))"

text \<open>
  The list comprehension over \<open>zip([0] + cut_positions, cut_positions + [None])\<close>,
  which skips empty slices: the fragments in the order of the boundaries, before the
  final sort.
\<close>

definition boundaries :: "nat list \<Rightarrow> (nat \<times> nat option) list" where
  "boundaries cuts = zip (0 # cuts) (map Some cuts @ [None])"

definition fragments_in_order :: "string \<Rightarrow> enzymes_arg \<Rightarrow> string list" where
  "fragments_in_order sequence enzymes =
     [slice sequence i j. (i, j) \<leftarrow> boundaries (cut_positions sequence enzymes),
        slice sequence i j \<noteq> []]"

text \<open>
  \<open>sorted(fragments, key=len, reverse=True)\<close>. CPython sorts stably in ascending
  key order and implements \<open>reverse=True\<close> by reversing the list before and after
  that sort, so that equal keys keep their original order.
\<close>

definition sorted_len_reverse :: "string list \<Rightarrow> string list" where
  "sorted_len_reverse fragments = rev (sort_key length (rev fragments))"

definition cut_dna :: "string \<Rightarrow> enzymes_arg \<Rightarrow> string list" where
  "cut_dna sequence enzymes = sorted_len_reverse (fragments_in_order sequence enzymes)"

subsection \<open>Exceptions\<close>

text \<open>
  The exceptions the modelled code can raise. A function that can raise returns
  \<open>py_error + 'a\<close>, with \<open>Inl\<close> for the exception.
\<close>

datatype py_error = KeyError | IndexError | ZeroDivisionError | Cv2Error

definition and_then :: "py_error + 'a \<Rightarrow> ('a \<Rightarrow> py_error + 'b) \<Rightarrow> py_error + 'b" where
  "and_then r f = (case r of Inl e \<Rightarrow> Inl e | Inr v \<Rightarrow> f v)"

subsection \<open>The sequence generator: \<open>generate_dna_sequence\<close>\<close>

text \<open>
  \<open>random.choice(seq)\<close> returns \<open>seq[k]\<close> for a random index \<open>k\<close> below
  \<open>len(seq)\<close> and raises IndexError on an empty sequence. The random source supplies
  a natural number, reduced modulo the length.
\<close>

definition choice :: "'a list \<Rightarrow> nat \<Rightarrow> py_error + 'a" where
  "choice seq r = (if seq = [] then Inl IndexError else Inr (seq ! (r mod length seq)))"

text \<open>\<open>ENZYMES[name]\<close>.\<close>

definition ENZYMES_item :: "string \<Rightarrow> py_error + string" where
  "ENZYMES_item name =
     (case map_of ENZYMES name of None \<Rightarrow> Inl KeyError | Some enzyme_seq \<Rightarrow> Inr enzyme_seq)"

definition bases :: string where
  "bases = ''ATGC''"

text \<open>
  The random draws of one iteration of the generator expression. \<open>Site k j\<close>:
  \<open>random.random() < 0.15\<close> held, the inner \<open>random.choice\<close> drew \<open>k\<close> for the
  enzyme name and the outer one drew \<open>j\<close>. \<open>Base b\<close>: it did not hold, and
  \<open>random.choice(bases)\<close> drew \<open>b\<close>.
\<close>

datatype draw = Site nat nat | Base nat

text \<open>
  The element the generator expression yields in one iteration:
  \<open>random.choice(ENZYMES[random.choice(list(ENZYMES.keys()))])\<close>, a choice among the
  characters of the chosen recognition sequence, or \<open>random.choice(bases)\<close>.
\<close>

fun element :: "draw \<Rightarrow> py_error + char" where
  "element (Site k j) =
     and_then (choice (map fst ENZYMES) k) (\<lambda>name.
     and_then (ENZYMES_item name) (\<lambda>enzyme_seq.
     choice enzyme_seq j))"
| "element (Base b) = choice bases b"

text \<open>\<open>''.join(...)\<close> over the elements: the first exception ends the run.\<close>

fun join_elements :: "(py_error + char) list \<Rightarrow> py_error + string" where
  "join_elements [] = Inr []"
| "join_elements (x # xs) =
     and_then x (\<lambda>c. and_then (join_elements xs) (\<lambda>cs. Inr (c # cs)))"

text \<open>
  \<open>generate_dna_sequence(length)\<close>, with \<open>rnd i\<close> the draws of iteration \<open>i\<close>.
  \<open>range(length)\<close> is empty for a negative \<open>length\<close>.
\<close>

definition generate_dna_sequence :: "int \<Rightarrow> (nat \<Rightarrow> draw) \<Rightarrow> py_error + string" where
  "generate_dna_sequence len rnd =
     join_elements (map (\<lambda>i. element (rnd i)) [0..<nat len])"

subsection \<open>Text helpers\<close>

text \<open>\<open>str(n)\<close> for an integer: decimal digits, with a minus sign when negative.\<close>

fun str_nat :: "nat \<Rightarrow> string" where
  "str_nat n =
     (if n < 10 then [char_of (48 + n)]
      else str_nat (n div 10) @ [char_of (48 + n mod 10)])"

declare str_nat.simps [simp del]

definition str_int :: "int \<Rightarrow> string" where
  "str_int i = (if i < 0 then CHR ''-'' # str_nat (nat (- i)) else str_nat (nat i))"

text \<open>\<open>sep.join(xs)\<close>.\<close>

fun join :: "string \<Rightarrow> string list \<Rightarrow> string" where
  "join sep [] = []"
| "join sep [x] = x"
| "join sep (x # y # ys) = x @ sep @ join sep (y # ys)"

text \<open>
  \<open>s.upper()\<close> on ASCII text: the letters a to z become A to Z, every other
  character is kept. \<open>s.replace(" ", "")\<close> removes the spaces.
\<close>

definition upper_char :: "char \<Rightarrow> char" where
  "upper_char c =
     (let n = (of_char c :: nat) in if 97 \<le> n \<and> n \<le> 122 then char_of (n - 32) else c)"

definition upper :: "string \<Rightarrow> string" where
  "upper s = map upper_char s"

definition remove_spaces :: "string \<Rightarrow> string" where
  "remove_spaces s = filter (\<lambda>c. c \<noteq> CHR '' '') s"

subsection \<open>The environment of a request\<close>

text \<open>
  An image is a numpy array of shape (rows, columns, channels) with \<open>uint8\<close>
  entries: a list of rows, each a list of pixels, each a list of channel values.
\<close>

type_synonym pixel = "8 word list"
type_synonym image = "pixel list list"

text \<open>
  What the code reads from outside the repository:
  \<^item> \<open>rnd\<close>: the draws of the \<open>random\<close> module, by iteration of the generator;
  \<^item> \<open>stamp\<close>: \<open>datetime.now().strftime('%Y%m%d%H%M%S')\<close>;
  \<^item> \<open>scaled a b\<close>: the value of \<open>int(30 * (a / b))\<close> in Python's double
    arithmetic, for \<open>b \<noteq> 0\<close>;
  \<^item> \<open>hershey text org scale thickness x y\<close>: whether \<open>cv2.putText\<close> with the font
    FONT\_HERSHEY\_SIMPLEX inks the pixel in column \<open>x\<close> and row \<open>y\<close>.
  The properties below hold for each value of these; those that need the renderer to
  return say so through the bound on \<open>scaled\<close> stated next.
\<close>

record env =
  rnd :: "nat \<Rightarrow> draw"
  stamp :: string
  scaled :: "nat \<Rightarrow> nat \<Rightarrow> int"
  hershey :: "string \<Rightarrow> int \<times> int \<Rightarrow> real \<Rightarrow> int \<Rightarrow> int \<Rightarrow> int \<Rightarrow> bool"

text \<open>
  In double arithmetic \<open>a / b\<close> is at most 1 when \<open>a \<le> b\<close>, its product with 30 is
  at most 30, and \<open>int\<close> truncates: \<open>int(30 * (a / b))\<close> is at most 30. An environment
  whose \<open>scaled\<close> keeps this bound has its band heights in range; the properties of
  the renderer need no more of the rounding.
\<close>

definition band_heights_in_range :: "env \<Rightarrow> bool" where
  "band_heights_in_range ev = (\<forall>a b. 0 < b \<and> a \<le> b \<longrightarrow> scaled ev a b \<le> 30)"

text \<open>
  The state a request can change: the files of \<open>STATIC_DIR\<close>, by name, and the log
  of the calls the handler has made to the three functions above it, in order.
\<close>

datatype call = Call_generate_dna_sequence | Call_cut_dna | Call_generate_gel_image

record world =
  static_dir :: "string \<rightharpoonup> image"
  calls :: "call list"

definition called :: "call \<Rightarrow> world \<Rightarrow> world" where
  "called c w = w\<lparr>calls := calls w @ [c]\<rparr>"

subsection \<open>The gel renderer: \<open>generate_gel_image\<close>\<close>

text \<open>\<open>np.ones((400, 600, 3), dtype=np.uint8) * 255\<close>.\<close>

definition white_canvas :: image where
  "white_canvas = replicate 400 (replicate 600 (replicate 3 (1 * 255)))"

text \<open>\<open>img.shape == (400, 600, 3)\<close>: 400 rows of 600 pixels of 3 channels.\<close>

definition gel_shape :: "image \<Rightarrow> bool" where
  "gel_shape img = (map (map length) img = replicate 400 (replicate 600 3))"

text \<open>
  The drawing primitives of OpenCV write into the array they are given and clip to
  it: a pixel of the array is overwritten with the colour when the shape covers it, and
  nothing outside the array is touched.
\<close>

definition paint :: "image \<Rightarrow> (int \<Rightarrow> int \<Rightarrow> bool) \<Rightarrow> pixel \<Rightarrow> image" where
  "paint img covers color =
     map (\<lambda>(y, row). map (\<lambda>(x, px). if covers (int x) (int y) then color else px)
                         (enumerate 0 row))
         (enumerate 0 img)"

text \<open>
  The Python bindings convert every point coordinate to a C \<open>int\<close> and raise
  (\<open>cv2.error\<close>, or the OverflowError of the conversion) when it does not fit 32
  signed bits; nothing is drawn then.
\<close>

definition fits_c_int :: "int \<Rightarrow> bool" where
  "fits_c_int x = (- 2147483648 \<le> x \<and> x \<le> 2147483647)"

text \<open>
  \<open>cv2.rectangle\<close> with thickness \<open>-1\<close> fills the rectangle between the two
  corners, both included.
\<close>

definition rectangle ::
    "image \<Rightarrow> int \<times> int \<Rightarrow> int \<times> int \<Rightarrow> pixel \<Rightarrow> py_error + image" where
  "rectangle img pt1 pt2 color =
     (if fits_c_int (fst pt1) \<and> fits_c_int (snd pt1) \<and>
         fits_c_int (fst pt2) \<and> fits_c_int (snd pt2)
      then Inr (paint img
                  (\<lambda>x y. fst pt1 \<le> x \<and> x \<le> fst pt2 \<and> snd pt1 \<le> y \<and> y \<le> snd pt2) color)
      else Inl Cv2Error)"

definition putText ::
    "env \<Rightarrow> image \<Rightarrow> string \<Rightarrow> int \<times> int \<Rightarrow> real \<Rightarrow> pixel \<Rightarrow> int \<Rightarrow> py_error + image" where
  "putText ev img txt org fontScale color thickness =
     (if fits_c_int (fst org) \<and> fits_c_int (snd org)
      then Inr (paint img (hershey ev txt org fontScale thickness) color)
      else Inl Cv2Error)"

text \<open>
  The loop over \<open>enumerate(fragments)\<close>, from index \<open>i\<close>. The division
  \<open>len(frag)/max_len\<close> raises ZeroDivisionError when \<open>max_len\<close> is 0; a drawing call
  raises when a coordinate built from \<open>y_pos\<close> leaves the C \<open>int\<close> range.
\<close>

fun draw_bands :: "env \<Rightarrow> nat \<Rightarrow> nat \<Rightarrow> string list \<Rightarrow> image \<Rightarrow> py_error + image" where
  "draw_bands ev max_len i [] img = Inr img"
| "draw_bands ev max_len i (frag # rest) img =
     (if max_len = 0 then Inl ZeroDivisionError
      else
        let band_height = max 5 (scaled ev (length frag) max_len);
            y_pos = 100 + int i * 40
        in
        and_then (rectangle img (150, y_pos) (300, y_pos + band_height) [0, 0, 150])
          (\<lambda>img1.
        and_then (putText ev img1 (str_nat (length frag) @ ''bp'')
                    (310, y_pos + band_height div 2) 0.5 [0, 0, 200] 1)
          (\<lambda>img2.
        draw_bands ev max_len (i + 1) rest img2)))"

text \<open>The loop over \<open>enumerate(ladder)\<close>, from index \<open>i\<close>.\<close>

fun draw_ladder :: "env \<Rightarrow> nat \<Rightarrow> int list \<Rightarrow> image \<Rightarrow> py_error + image" where
  "draw_ladder ev i [] img = Inr img"
| "draw_ladder ev i (size_bp # rest) img =
     (let y_pos = 100 + int i * 50 in
      and_then (rectangle img (400, y_pos) (450, y_pos + 10) [0, 0, 0])
        (\<lambda>img1.
      and_then (putText ev img1 (str_int size_bp @ ''bp'') (460, y_pos + 5) 0.5 [0, 0, 0] 1)
        (\<lambda>img2.
      draw_ladder ev (i + 1) rest img2)))"

text \<open>
  \<open>generate_gel_image(fragments, enzymes, ladder)\<close>: the drawing, each call in the
  order of the source and the first exception ending the run; then \<open>cv2.imwrite\<close>
  stores the array under the file name in \<open>STATIC_DIR\<close>, and the file name is
  returned.
\<close>

definition generate_gel_image ::
    "string list \<Rightarrow> string list \<Rightarrow> int list \<Rightarrow> env \<Rightarrow> world \<Rightarrow> py_error + string \<times> world" where
  "generate_gel_image fragments enzymes ladder ev w =
     and_then (rectangle white_canvas (50, 50) (550, 350) [240, 240, 240]) (\<lambda>img.
     and_then (rectangle img (80, 70) (120, 90) [200, 200, 200]) (\<lambda>img.
     and_then (rectangle img (480, 70) (520, 90) [200, 200, 200]) (\<lambda>img.
     and_then
       (if fragments \<noteq> []
        then draw_bands ev (Max (set (map length fragments))) 0 fragments img
        else Inr img) (\<lambda>img.
     and_then (draw_ladder ev 0 ladder img) (\<lambda>img.
     and_then (putText ev img (join ''+'' enzymes @ '' Digest'') (150, 380) 0.7 [0, 0, 0] 2)
       (\<lambda>img.
     and_then (putText ev img ''DNA Ladder'' (400, 380) 0.7 [0, 0, 0] 2) (\<lambda>img.
       let filename = ''gel_'' @ stamp ev @ ''.png''
       in Inr (filename, w\<lparr>static_dir := (static_dir w)(filename \<mapsto> img)\<rparr>))))))))"

subsection \<open>The request handler: \<open>simulate_fingerprint\<close>\<close>

text \<open>
  The JSON body: each of the three fields may be absent. \<open>enzyme\<close> is a string or a
  list of strings.
\<close>

record request =
  req_dna_sequence :: "string option"
  req_enzyme :: "enzymes_arg option"
  req_length :: "int option"

text \<open>The JSON of a successful response, and the two kinds of response.\<close>

record simulation =
  dna_sequence :: string
  fragments :: "string list"
  gel_image :: string
  enzyme_used :: "string list"
  ladder_sizes :: "int list"

datatype response = Status_400 string | Status_200 simulation

text \<open>
  The three reads of the body: \<open>data.get('dna_sequence', '').upper().replace(" ", "")\<close>,
  \<open>data.get('enzyme', 'EcoRI')\<close> and \<open>data.get('length', 100)\<close>.
\<close>

definition normalized_sequence :: "request \<Rightarrow> string" where
  "normalized_sequence data =
     remove_spaces (upper (case req_dna_sequence data of None \<Rightarrow> [] | Some s \<Rightarrow> s))"

definition enzyme_input :: "request \<Rightarrow> enzymes_arg" where
  "enzyme_input data = (case req_enzyme data of None \<Rightarrow> Name ''EcoRI'' | Some e \<Rightarrow> e)"

definition sequence_length :: "request \<Rightarrow> int" where
  "sequence_length data = (case req_length data of None \<Rightarrow> 100 | Some n \<Rightarrow> n)"

text \<open>\<open>all(c in 'ATGC' for c in dna_sequence)\<close>.\<close>

definition all_ATGC :: "string \<Rightarrow> bool" where
  "all_ATGC s = list_all (\<lambda>c. c \<in> set ''ATGC'') s"

text \<open>\<open>[e for e in enzymes if e not in ENZYMES]\<close>.\<close>

definition invalid_enzymes :: "string list \<Rightarrow> string list" where
  "invalid_enzymes enzymes = filter (\<lambda>e. \<not> in_ENZYMES e) enzymes"

text \<open>
  The handler from the line \<open>enzymes = ...\<close> on, which both branches of the sequence
  check reach with a sequence to digest.
\<close>

definition digest_and_render ::
    "string \<Rightarrow> enzymes_arg \<Rightarrow> env \<Rightarrow> world \<Rightarrow> py_error + response \<times> world" where
  "digest_and_render dna_seq enzyme_arg ev w =
     (let enzymes = as_list enzyme_arg;
          invalid = invalid_enzymes enzymes
      in
      if invalid \<noteq> []
      then Inr (Status_400 (''Invalid enzymes: '' @ join '', '' invalid), w)
      else
        let frags = cut_dna dna_seq (Names enzymes);
            w1 = called Call_cut_dna w
        in
        and_then (generate_gel_image frags enzymes DNA_LADDER ev (called Call_generate_gel_image w1))
          (\<lambda>(image_name, w2).
             Inr (Status_200
                    \<lparr>dna_sequence = dna_seq, fragments = frags, gel_image = image_name,
                     enzyme_used = enzymes, ladder_sizes = DNA_LADDER\<rparr>,
                  w2)))"

text \<open>
  \<open>simulate_fingerprint()\<close> on the request body \<open>data\<close>. An exception that escapes
  is \<open>Inl\<close>; a response comes with the state after the request.
\<close>

definition simulate_fingerprint ::
    "request \<Rightarrow> env \<Rightarrow> world \<Rightarrow> py_error + response \<times> world" where
  "simulate_fingerprint data ev w =
     (let dna_seq = normalized_sequence data in
      if dna_seq = []
      then and_then (generate_dna_sequence (sequence_length data) (rnd ev))
             (\<lambda>generated.
                digest_and_render generated (enzyme_input data) ev
                  (called Call_generate_dna_sequence w))
      else if \<not> all_ATGC dna_seq
      then Inr (Status_400 ''Invalid DNA sequence (only A, T, G, C allowed)'', w)
      else digest_and_render dna_seq (enzyme_input data) ev w)"

subsection \<open>Inputs of the examples\<close>

text \<open>
  An environment and a state for the closed examples below: every draw picks the base at
  index 0, the clock reads 2026-01-01 12:00:00, the band height uses exact integer
  arithmetic, the font inks nothing; the output directory is empty and no call is logged.
\<close>

definition example_env :: env where
  "example_env =
     \<lparr>rnd = (\<lambda>i. Base 0), stamp = ''20260101120000'',
      scaled = (\<lambda>a b. int (30 * a div b)), hershey = (\<lambda>txt org fontScale thickness x y. False)\<rparr>"

definition empty_world :: world where
  "empty_world = \<lparr>static_dir = Map.empty, calls = []\<rparr>"


section \<open>Properties\<close>

subsection \<open>Cut positions\<close>

lemma startswith_bound:
  assumes "startswith s p i" and "i < length s"
  shows "i + length p \<le> length s"
proof -
  have "length p \<le> length (drop i s)"
    using assms(1) unfolding startswith_def by (rule prefix_length_le)
  then show ?thesis using assms(2) by simp
qed

lemma scan_enzymes_bounds:
  "p \<in> set (scan_enzymes s es acc) \<Longrightarrow> p \<in> set acc \<or> (0 < p \<and> p \<le> length s)"
proof (induction es arbitrary: acc)
  case Nil
  then show ?case by simp
next
  case (Cons e es)
  from Cons.IH [OF Cons.prems [simplified scan_enzymes.simps Let_def]]
  show ?case
    by (auto split: if_splits dest: startswith_bound)
qed

lemma scan_enzymes_empty: "scan_enzymes [] es acc = acc"
  by (induction es arbitrary: acc) (simp_all add: Let_def)

lemma sorted_cut_positions: "sorted (cut_positions s es)"
  by (simp add: cut_positions_def)

lemma no_site_no_cut:
  assumes "\<not> sublist r s"
  shows "[i + length r. i \<leftarrow> [0..<length s], startswith s r i] = []"
proof -
  have "\<not> startswith s r i" for i
  proof
    assume "startswith s r i"
    then obtain zs where "drop i s = r @ zs"
      unfolding startswith_def prefix_def by blast
    then have "s = take i s @ r @ zs"
      by (metis append_take_drop_id)
    then have "sublist r s" unfolding sublist_def by blast
    with assms show False by contradiction
  qed
  then show ?thesis by simp
qed

lemma site_nonempty: "map_of ENZYMES e = Some r \<Longrightarrow> r \<noteq> []"
  by (auto simp: ENZYMES_def split: if_splits)

lemma scan_enzymes_keeps: "p \<in> set acc \<Longrightarrow> p \<in> set (scan_enzymes s es acc)"
  by (induction es arbitrary: acc) (simp_all add: Let_def)

lemma scan_enzymes_records:
  assumes "map_of ENZYMES e = Some r" and "i < length s" and "startswith s r i"
  shows "e \<in> set es \<Longrightarrow> i + length r \<in> set (scan_enzymes s es acc)"
proof (induction es arbitrary: acc)
  case Nil
  then show ?case by simp
next
  case (Cons x xs)
  show ?case
  proof (cases "x = e")
    case True
    have g: "ENZYMES_get e [] = r" using assms(1) by (simp add: ENZYMES_get_def)
    have "i + length r \<in> set (acc @ [i + length r. i \<leftarrow> [0..<length s], startswith s r i])"
      using assms(2,3) by auto
    then have "i + length r \<in> set (scan_enzymes s xs
                 (acc @ [i + length r. i \<leftarrow> [0..<length s], startswith s r i]))"
      by (rule scan_enzymes_keeps)
    then show ?thesis using True g site_nonempty [OF assms(1)] by (simp add: Let_def)
  next
    case False
    then have "e \<in> set xs" using Cons.prems by simp
    then show ?thesis by (simp add: Let_def Cons.IH)
  qed
qed

lemma site_at_end:
  assumes "e \<in> set es" and "map_of ENZYMES e = Some r" and "suffix r s"
  shows "length s \<in> set (cut_positions s (Names es))"
proof -
  have ne: "r \<noteq> []" using assms(2) by (rule site_nonempty)
  obtain zs where s: "s = zs @ r" using assms(3) by (auto simp: suffix_def)
  have i: "length zs < length s" using s ne by simp
  have st: "startswith s r (length zs)" by (simp add: startswith_def s)
  from scan_enzymes_records [OF assms(2) i st assms(1), of "[]"]
  have "length zs + length r \<in> set (scan_enzymes s es [])" .
  then show ?thesis by (simp add: cut_positions_def s)
qed

lemma cut_positions_bounds:
  "p \<in> set (cut_positions s es) \<Longrightarrow> 0 < p \<and> p \<le> length s"
  unfolding cut_positions_def
  using scan_enzymes_bounds [of p s "as_list es" "[]"] by simp

text \<open>
  Claim C2, as the code has it. Every offset in the deduplicated cut-position list is
  positive and at most the length of the sequence. The upper bound is not strict:
  whenever the recognition sequence of one of the enzymes ends the sequence, the
  length of the sequence is itself one of the offsets.
\<close>

theorem cut_positions_within:
  "(p \<in> set (cut_positions s (Names es)) \<longrightarrow> 0 < p \<and> p \<le> length s) \<and>
   (e \<in> set es \<and> map_of ENZYMES e = Some r \<and> suffix r s \<longrightarrow>
      length s \<in> set (cut_positions s (Names es)))"
  using cut_positions_bounds [of p s "Names es"] site_at_end [of e es r s] by blast

theorem cut_positions_within_witness:
  "8 \<in> set (cut_positions ''AAGAATTCGG'' (Names [''EcoRI''])) \<and>
   (0::nat) < 8 \<and> 8 \<le> length ''AAGAATTCGG'' \<and>
   ''EcoRI'' \<in> set [''EcoRI''] \<and> map_of ENZYMES ''EcoRI'' = Some ''GAATTC'' \<and>
   suffix ''GAATTC'' ''AAGAATTC'' \<and>
   length ''AAGAATTC'' \<in> set (cut_positions ''AAGAATTC'' (Names [''EcoRI'']))"
proof -
  have m: "8 \<in> set (cut_positions ''AAGAATTCGG'' (Names [''EcoRI'']))"
    by code_simp
  have a: "''EcoRI'' \<in> set [''EcoRI'']" by simp
  have b: "map_of ENZYMES ''EcoRI'' = Some ''GAATTC''" by (simp add: ENZYMES_def)
  have c: "suffix ''GAATTC'' ''AAGAATTC''" by code_simp
  from cut_positions_within [of 8 "''AAGAATTCGG''" "[''EcoRI'']" "''EcoRI''" "''GAATTC''"] m
  have first: "(0::nat) < 8 \<and> 8 \<le> length ''AAGAATTCGG''" by blast
  from cut_positions_within [of 0 "''AAGAATTC''" "[''EcoRI'']" "''EcoRI''" "''GAATTC''"] a b c
  have second: "length ''AAGAATTC'' \<in> set (cut_positions ''AAGAATTC'' (Names [''EcoRI'']))"
    by blast
  show ?thesis using m first a b c second by blast
qed

text \<open>
  Claim C2 as stated (every offset strictly below the length) fails: digesting
  \<open>GAATTC\<close> with EcoRI records the offset 6, the length of the sequence.
\<close>

theorem cut_positions_strict_counterexample:
  "6 \<in> set (cut_positions ''GAATTC'' (Names [''EcoRI''])) \<and> \<not> 6 < length ''GAATTC''"
  by code_simp

subsection \<open>Fragments partition the sequence\<close>

lemma concat_comprehension_nonempty:
  "concat [f i j. (i, j) \<leftarrow> ps, f i j \<noteq> []] = concat [f i j. (i, j) \<leftarrow> ps]"
  by (induction ps) auto

lemma concat_slices:
  "sorted (i0 # cuts) \<Longrightarrow>
   concat [slice s i j. (i, j) \<leftarrow> zip (i0 # cuts) (map Some cuts @ [None])] = drop i0 s"
proof (induction cuts arbitrary: i0)
  case Nil
  show ?case by (simp add: slice_def)
next
  case (Cons c cs)
  have le: "i0 \<le> c" using Cons.prems by simp
  have "sorted (c # cs)" using Cons.prems by simp
  from Cons.IH [OF this]
  have rest: "concat [slice s i j. (i, j) \<leftarrow> zip (c # cs) (map Some cs @ [None])] = drop c s" .
  have "drop i0 (take c s) @ drop c s = drop i0 s"
  proof (cases "c \<le> length s")
    case True
    then have "drop i0 (take c s @ drop c s) = drop i0 (take c s) @ drop c s"
      using le by (simp del: append_take_drop_id)
    then show ?thesis by simp
  next
    case False
    then show ?thesis by simp
  qed
  then show ?case using rest by (simp add: slice_def)
qed

lemma sorted_len_reverse_single: "sorted_len_reverse [f] = [f]"
  by (simp add: sorted_len_reverse_def)

lemma sorted_len_reverse_desc:
  "sorted_wrt (\<lambda>a b. length b \<le> length a) (sorted_len_reverse fs)"
proof -
  have "sorted (map length (sort_key length (rev fs)))" by simp
  then have "sorted_wrt (\<lambda>a b. length a \<le> length b) (sort_key length (rev fs))"
    by (simp only: sorted_map)
  then show ?thesis
    by (simp add: sorted_len_reverse_def sorted_wrt_rev)
qed

lemma sorted_len_reverse_stable:
  "filter (\<lambda>f. length f = k) (sorted_len_reverse fs) = filter (\<lambda>f. length f = k) fs"
proof -
  have "filter (\<lambda>f. length f = k) (sorted_len_reverse fs)
        = rev (filter (\<lambda>f. length f = k) (sort_key length (rev fs)))"
    by (simp add: sorted_len_reverse_def rev_filter)
  also have "\<dots> = rev (filter (\<lambda>f. length f = k) (rev fs))"
    by (simp only: sort_key_stable)
  also have "\<dots> = filter (\<lambda>f. length f = k) fs"
    by (simp add: rev_filter)
  finally show ?thesis .
qed

lemma mset_sorted_len_reverse: "mset (sorted_len_reverse fs) = mset fs"
  by (simp add: sorted_len_reverse_def)

text \<open>
  Claim C1. For every sequence (over any alphabet, so over A, T, G, C too) and every
  list of enzyme names, the fragments taken in the order of the ascending cut
  boundaries, before the final sort by length, concatenate to the sequence; the list
  \<open>cut_dna\<close> returns holds exactly these fragments, reordered.
\<close>

theorem cut_dna_fragments_concat:
  "concat (fragments_in_order s (Names es)) = s \<and>
   cut_dna s (Names es) = sorted_len_reverse (fragments_in_order s (Names es)) \<and>
   mset (cut_dna s (Names es)) = mset (fragments_in_order s (Names es))"
proof -
  have "sorted (0 # cut_positions s (Names es))"
    using sorted_cut_positions by simp
  from concat_slices [OF this, of s]
  have "concat (fragments_in_order s (Names es)) = s"
    by (simp add: fragments_in_order_def boundaries_def concat_comprehension_nonempty)
  then show ?thesis
    by (simp add: cut_dna_def mset_sorted_len_reverse)
qed

subsection \<open>Digestion without a recognition site\<close>

text \<open>
  Claim C4, as the code has it. For a non-empty sequence and an enzyme name whose
  recognition sequence does not occur in it (or that has none, not being in the table),
  \<open>cut_dna\<close> returns exactly one fragment, the sequence itself.
\<close>

theorem cut_dna_no_site:
  assumes "s \<noteq> []"
    and "case map_of ENZYMES e of None \<Rightarrow> True | Some r \<Rightarrow> \<not> sublist r s"
  shows "cut_dna s (Names [e]) = [s]"
proof -
  have "scan_enzymes s [e] [] = []"
  proof (cases "map_of ENZYMES e")
    case None
    then show ?thesis by (simp add: ENZYMES_get_def)
  next
    case (Some r)
    then have "\<not> sublist r s" using assms(2) by simp
    from no_site_no_cut [OF this] Some show ?thesis
      by (simp add: ENZYMES_get_def)
  qed
  then have "cut_positions s (Names [e]) = []"
    by (simp add: cut_positions_def)
  then have "fragments_in_order s (Names [e]) = [s]"
    using assms(1) by (simp add: fragments_in_order_def boundaries_def slice_def)
  then show ?thesis
    by (simp add: cut_dna_def sorted_len_reverse_single)
qed

theorem cut_dna_no_site_witness:
  "''AAGCTTGG'' \<noteq> [] \<and> map_of ENZYMES ''EcoRI'' = Some ''GAATTC'' \<and>
   \<not> sublist ''GAATTC'' ''AAGCTTGG'' \<and>
   cut_dna ''AAGCTTGG'' (Names [''EcoRI'']) = [''AAGCTTGG'']"
proof -
  have a: "map_of ENZYMES ''EcoRI'' = Some ''GAATTC''" by (simp add: ENZYMES_def)
  have b: "\<not> sublist ''GAATTC'' ''AAGCTTGG''" by code_simp
  have c: "''AAGCTTGG'' \<noteq> []" by simp
  have d: "case map_of ENZYMES ''EcoRI'' of None \<Rightarrow> True | Some r \<Rightarrow> \<not> sublist r ''AAGCTTGG''"
    using a b by simp
  from cut_dna_no_site [OF c d] a b c show ?thesis by simp
qed

text \<open>
  Claim C4 as stated fails on the empty sequence: EcoRI's recognition sequence does
  not occur in it, and \<open>cut_dna\<close> returns no fragment at all, not the one-element
  list holding the empty sequence.
\<close>

theorem cut_dna_no_site_empty_counterexample:
  "map_of ENZYMES ''EcoRI'' = Some ''GAATTC'' \<and> \<not> sublist ''GAATTC'' [] \<and>
   cut_dna [] (Names [''EcoRI'']) \<noteq> [[]]"
  by code_simp

subsection \<open>The final sort\<close>

text \<open>
  Claim C5. The list \<open>cut_dna\<close> returns is sorted by length, longest first, and the
  sort is stable: for every length \<open>k\<close>, the fragments of length \<open>k\<close> stand in the
  result in the order they have in the list of fragments by ascending cut boundary.
\<close>

theorem cut_dna_sorted_stable:
  "sorted_wrt (\<lambda>a b. length b \<le> length a) (cut_dna s (Names es)) \<and>
   (\<forall>k. filter (\<lambda>f. length f = k) (cut_dna s (Names es))
        = filter (\<lambda>f. length f = k) (fragments_in_order s (Names es)))"
  unfolding cut_dna_def
  using sorted_len_reverse_desc [of "fragments_in_order s (Names es)"]
    sorted_len_reverse_stable [of _ "fragments_in_order s (Names es)"]
  by blast

subsection \<open>The empty sequence\<close>

text \<open>
  Claim C8. Digesting the empty sequence returns the empty list of fragments, for every
  list of enzyme names, in the table or not.
\<close>

theorem cut_dna_empty_sequence: "cut_dna [] (Names es) = []"
  by (simp add: cut_dna_def sorted_len_reverse_def fragments_in_order_def boundaries_def
      cut_positions_def scan_enzymes_empty slice_def)

subsection \<open>The sequence generator\<close>

lemma choice_Inr:
  assumes "seq \<noteq> []"
  shows "\<exists>x. choice seq r = Inr x \<and> x \<in> set seq"
  using assms by (simp add: choice_def)

lemma ENZYMES_item_key:
  assumes "name \<in> set (map fst ENZYMES)"
  shows "\<exists>enzyme_seq. ENZYMES_item name = Inr enzyme_seq \<and> enzyme_seq \<noteq> []"
  using assms by (auto simp: ENZYMES_item_def ENZYMES_def)

lemma element_Inr: "\<exists>c. element d = Inr c"
proof (cases d)
  case (Site k j)
  have "map fst ENZYMES \<noteq> []" by (simp add: ENZYMES_def)
  from choice_Inr [OF this, of k]
  obtain name where n: "choice (map fst ENZYMES) k = Inr name" "name \<in> set (map fst ENZYMES)"
    by blast
  from ENZYMES_item_key [OF n(2)]
  obtain enzyme_seq where s: "ENZYMES_item name = Inr enzyme_seq" "enzyme_seq \<noteq> []"
    by blast
  from choice_Inr [OF s(2), of j]
  obtain c where "choice enzyme_seq j = Inr c" by blast
  with n(1) s(1) Site show ?thesis by (simp add: and_then_def)
next
  case (Base b)
  have "bases \<noteq> []" by (simp add: bases_def)
  from choice_Inr [OF this, of b] Base show ?thesis by auto
qed

lemma join_elements_length:
  assumes "\<And>x. x \<in> set xs \<Longrightarrow> \<exists>c. x = Inr c"
  shows "\<exists>s. join_elements xs = Inr s \<and> length s = length xs"
  using assms
proof (induction xs)
  case Nil
  show ?case by simp
next
  case (Cons x xs)
  obtain c where c: "x = Inr c" using Cons.prems [of x] by auto
  obtain s where s: "join_elements xs = Inr s" "length s = length xs"
    using Cons.IH Cons.prems by auto
  show ?case using c s by (simp add: and_then_def)
qed

lemma generate_dna_sequence_length:
  "\<exists>s. generate_dna_sequence n draws = Inr s \<and> length s = nat n"
proof -
  let ?xs = "map (\<lambda>i. element (draws i)) [0..<nat n]"
  have "\<exists>c. x = Inr c" if "x \<in> set ?xs" for x
    using that element_Inr by auto
  then have "\<exists>s. join_elements ?xs = Inr s \<and> length s = length ?xs"
    by (rule join_elements_length)
  then show ?thesis by (simp add: generate_dna_sequence_def)
qed

text \<open>
  Claim C3, on the code. Each iteration of the generator appends exactly one character:
  when the 15 percent branch is taken, \<open>random.choice\<close> is applied a second time, to
  the chosen recognition sequence, and picks one of its characters. So the generator
  never raises and, whatever the random draws, returns a sequence of exactly the
  requested length (the empty one for a negative length); with the first enzyme and
  index 0 drawn, a request for one position returns the single character G, not GAATTC.
\<close>

theorem generate_dna_sequence_exact_length:
  "generate_dna_sequence 1 (\<lambda>i. Site 0 0) = Inr ''G'' \<and>
   (\<forall>n draws. \<exists>s. generate_dna_sequence n draws = Inr s \<and> length s = nat n)"
proof -
  have "generate_dna_sequence 1 (\<lambda>i. Site 0 0) = Inr ''G''" by code_simp
  then show ?thesis using generate_dna_sequence_length by blast
qed

subsection \<open>The gel renderer\<close>

lemma and_then_Inr: "and_then (Inr v) f = f v"
  by (simp add: and_then_def)

lemma and_then_Inl: "and_then (Inl e) f = Inl e"
  by (simp add: and_then_def)

lemma map_enumerate_cong:
  "(\<And>i x. x \<in> set xs \<Longrightarrow> f (i, x) = g x) \<Longrightarrow> map f (enumerate n xs) = map g xs"
  by (induction xs arbitrary: n) simp_all

lemma gel_shape_pixels:
  assumes "gel_shape img" and "row \<in> set img" and "px \<in> set row"
  shows "length px = 3"
proof -
  have "map length row \<in> set (map (map length) img)" using assms(2) by simp
  moreover have "map (map length) img = replicate 400 (replicate 600 3)"
    using assms(1) by (simp only: gel_shape_def)
  ultimately have "map length row \<in> set (replicate 400 (replicate 600 (3::nat)))"
    by (simp only:)
  then have "map length row = replicate 600 3" by simp
  moreover have "length px \<in> set (map length row)" using assms(3) by simp
  ultimately show ?thesis by simp
qed

lemma paint_shape:
  assumes "gel_shape img" and "length color = 3"
  shows "gel_shape (paint img covers color)"
proof -
  have row: "map length (map (\<lambda>(x, px). if covers (int x) y then color else px) (enumerate 0 row))
             = map length row" if "row \<in> set img" for row y
  proof -
    have "map (length \<circ> (\<lambda>(x, px). if covers (int x) y then color else px)) (enumerate 0 row)
          = map length row"
      using gel_shape_pixels [OF assms(1) that] assms(2)
      by (intro map_enumerate_cong) simp
    then show ?thesis by simp
  qed
  have "map (map length \<circ> (\<lambda>(y, row). map (\<lambda>(x, px). if covers (int x) (int y) then color else px)
                         (enumerate 0 row))) (enumerate 0 img) = map (map length) img"
    using row by (intro map_enumerate_cong) simp
  then have "map (map length) (paint img covers color) = map (map length) img"
    by (simp add: paint_def)
  then show ?thesis using assms(1) by (simp add: gel_shape_def)
qed

lemma rectangle_drawn:
  assumes "gel_shape img" and "length color = 3"
    and "fits_c_int x1" and "fits_c_int y1" and "fits_c_int x2" and "fits_c_int y2"
  shows "\<exists>img'. rectangle img (x1, y1) (x2, y2) color = Inr img' \<and> gel_shape img'"
  using assms by (simp add: rectangle_def paint_shape)

lemma putText_drawn:
  assumes "gel_shape img" and "length color = 3" and "fits_c_int x" and "fits_c_int y"
  shows "\<exists>img'. putText ev img txt (x, y) fontScale color thickness = Inr img' \<and> gel_shape img'"
  using assms by (simp add: putText_def paint_shape)

lemma rectangle_outcome:
  "rectangle img pt1 pt2 color = Inl Cv2Error \<or> (\<exists>img'. rectangle img pt1 pt2 color = Inr img')"
  by (simp add: rectangle_def)

lemma putText_outcome:
  "putText ev img txt org fontScale color thickness = Inl Cv2Error \<or>
   (\<exists>img'. putText ev img txt org fontScale color thickness = Inr img')"
  by (simp add: putText_def)

lemma white_canvas_shape: "gel_shape white_canvas"
  by (simp add: gel_shape_def white_canvas_def)

lemma band_step_drawn:
  assumes shape: "gel_shape img" and idx: "i \<le> 53687087" and h: "5 \<le> bh" "bh \<le> 30"
  shows "\<exists>img2. gel_shape img2 \<and>
           and_then (rectangle img (150, 100 + int i * 40) (300, 100 + int i * 40 + bh) [0, 0, 150])
             (\<lambda>img1. and_then (putText ev img1 txt (310, 100 + int i * 40 + bh div 2) 0.5
                                  [0, 0, 200] 1) k)
           = k img2"
proof -
  have f: "fits_c_int 150" "fits_c_int 300" "fits_c_int 310"
    "fits_c_int (100 + int i * 40)" "fits_c_int (100 + int i * 40 + bh)"
    "fits_c_int (100 + int i * 40 + bh div 2)"
    using idx h by (simp_all add: fits_c_int_def)
  from rectangle_drawn [OF shape _ f(1) f(4) f(2) f(5), where color = "[0, 0, 150]"]
  obtain img1 where r: "rectangle img (150, 100 + int i * 40) (300, 100 + int i * 40 + bh) [0, 0, 150]
                        = Inr img1" and s1: "gel_shape img1"
    by auto
  have "\<exists>img'. putText ev img1 txt (310, 100 + int i * 40 + bh div 2) 0.5 [0, 0, 200] 1
                 = Inr img' \<and> gel_shape img'"
    by (rule putText_drawn [OF s1 _ f(3) f(6)]) simp
  then obtain img2 where p: "putText ev img1 txt (310, 100 + int i * 40 + bh div 2) 0.5 [0, 0, 200] 1
                        = Inr img2" and s2: "gel_shape img2"
    by blast
  show ?thesis using r p s2 by (auto simp: and_then_Inr)
qed

lemma draw_bands_drawn:
  assumes "max_len \<noteq> 0" and "band_heights_in_range ev"
  shows "gel_shape img \<Longrightarrow> (\<forall>f\<in>set frags. length f \<le> max_len) \<Longrightarrow>
         i + length frags \<le> 53687088 \<Longrightarrow>
         \<exists>img'. draw_bands ev max_len i frags img = Inr img' \<and> gel_shape img'"
proof (induction frags arbitrary: i img)
  case Nil
  then show ?case by simp
next
  case (Cons frag rest)
  let ?bh = "max 5 (scaled ev (length frag) max_len)"
  have "scaled ev (length frag) max_len \<le> 30"
    using assms Cons.prems(2) by (simp add: band_heights_in_range_def)
  then have bh: "5 \<le> ?bh" "?bh \<le> 30" by simp_all
  have idx: "i \<le> 53687087" using Cons.prems(3) by simp
  from band_step_drawn [OF Cons.prems(1) idx bh]
  obtain img2 where s2: "gel_shape img2"
    and step: "and_then (rectangle img (150, 100 + int i * 40) (300, 100 + int i * 40 + ?bh) [0, 0, 150])
             (\<lambda>img1. and_then (putText ev img1 (str_nat (length frag) @ ''bp'')
                                  (310, 100 + int i * 40 + ?bh div 2) 0.5 [0, 0, 200] 1)
                        (\<lambda>img2. draw_bands ev max_len (i + 1) rest img2))
           = draw_bands ev max_len (i + 1) rest img2"
    by blast
  have "\<exists>img'. draw_bands ev max_len (i + 1) rest img2 = Inr img' \<and> gel_shape img'"
    using Cons.prems by (intro Cons.IH [OF s2]) simp_all
  then show ?case using assms(1) step by (simp add: Let_def)
qed

lemma ladder_step_drawn:
  assumes shape: "gel_shape img" and idx: "i \<le> 42949670"
  shows "\<exists>img2. gel_shape img2 \<and>
           and_then (rectangle img (400, 100 + int i * 50) (450, 100 + int i * 50 + 10) [0, 0, 0])
             (\<lambda>img1. and_then (putText ev img1 txt (460, 100 + int i * 50 + 5) 0.5 [0, 0, 0] 1) k)
           = k img2"
proof -
  have f: "fits_c_int 400" "fits_c_int 450" "fits_c_int 460"
    "fits_c_int (100 + int i * 50)" "fits_c_int (100 + int i * 50 + 10)"
    "fits_c_int (100 + int i * 50 + 5)"
    using idx by (simp_all add: fits_c_int_def)
  from rectangle_drawn [OF shape _ f(1) f(4) f(2) f(5), where color = "[0, 0, 0]"]
  obtain img1 where r: "rectangle img (400, 100 + int i * 50) (450, 100 + int i * 50 + 10) [0, 0, 0]
                        = Inr img1" and s1: "gel_shape img1"
    by auto
  have "\<exists>img'. putText ev img1 txt (460, 100 + int i * 50 + 5) 0.5 [0, 0, 0] 1
                 = Inr img' \<and> gel_shape img'"
    by (rule putText_drawn [OF s1 _ f(3) f(6)]) simp
  then obtain img2 where p: "putText ev img1 txt (460, 100 + int i * 50 + 5) 0.5 [0, 0, 0] 1
                        = Inr img2" and s2: "gel_shape img2"
    by blast
  show ?thesis using r p s2 by (auto simp: and_then_Inr)
qed

lemma draw_ladder_drawn:
  "gel_shape img \<Longrightarrow> i + length ladder \<le> 42949671 \<Longrightarrow>
   \<exists>img'. draw_ladder ev i ladder img = Inr img' \<and> gel_shape img'"
proof (induction ladder arbitrary: i img)
  case Nil
  then show ?case by simp
next
  case (Cons size_bp rest)
  have idx: "i \<le> 42949670" using Cons.prems(2) by simp
  from ladder_step_drawn [OF Cons.prems(1) idx]
  obtain img2 where s2: "gel_shape img2"
    and step: "and_then (rectangle img (400, 100 + int i * 50) (450, 100 + int i * 50 + 10) [0, 0, 0])
             (\<lambda>img1. and_then (putText ev img1 (str_int size_bp @ ''bp'')
                                  (460, 100 + int i * 50 + 5) 0.5 [0, 0, 0] 1)
                        (\<lambda>img2. draw_ladder ev (i + 1) rest img2))
           = draw_ladder ev (i + 1) rest img2"
    by blast
  have "\<exists>img'. draw_ladder ev (i + 1) rest img2 = Inr img' \<and> gel_shape img'"
    using Cons.prems by (intro Cons.IH [OF s2]) simp_all
  then show ?case using step by (simp add: Let_def)
qed


lemma max_len_positive:
  assumes "f \<in> set frags" and "f \<noteq> []"
  shows "Max (set (map length frags)) \<noteq> 0"
proof -
  have "length f \<le> Max (set (map length frags))"
    using assms(1) by (intro Max_ge) simp_all
  moreover have "length f \<noteq> 0" using assms(2) by simp
  ultimately show ?thesis by linarith
qed

lemma bands_drawn:
  assumes "[] \<notin> set frags" and "length frags \<le> 53687088" and "band_heights_in_range ev"
    and "gel_shape img"
  shows "\<exists>img'. (if frags \<noteq> []
                 then draw_bands ev (Max (set (map length frags))) 0 frags img
                 else Inr img) = Inr img' \<and> gel_shape img'"
proof (cases frags)
  case Nil
  then show ?thesis using assms(4) by simp
next
  case (Cons f fs)
  then have "f \<in> set frags" and "f \<noteq> []" using assms(1) by auto
  then have m: "Max (set (map length frags)) \<noteq> 0" by (rule max_len_positive)
  have le: "\<forall>f\<in>set frags. length f \<le> Max (set (map length frags))"
    by (simp add: Max_ge)
  from draw_bands_drawn [OF m assms(3) assms(4) le, of 0] assms(2)
  show ?thesis using Cons by simp
qed

lemma generate_gel_image_result:
  assumes "[] \<notin> set frags" and "length frags \<le> 53687088"
    and "length ladder \<le> 42949671" and "band_heights_in_range ev"
  shows "\<exists>img. gel_shape img \<and>
           generate_gel_image frags enzymes ladder ev w =
             Inr (''gel_'' @ stamp ev @ ''.png'',
                  w\<lparr>static_dir := (static_dir w)(''gel_'' @ stamp ev @ ''.png'' \<mapsto> img)\<rparr>)"
proof -
  have c: "fits_c_int 50" "fits_c_int 550" "fits_c_int 350" "fits_c_int 80" "fits_c_int 70"
    "fits_c_int 120" "fits_c_int 90" "fits_c_int 480" "fits_c_int 520" "fits_c_int 150"
    "fits_c_int 380" "fits_c_int 400"
    by (simp_all add: fits_c_int_def)
  have "\<exists>img'. rectangle white_canvas (50, 50) (550, 350) [240, 240, 240] = Inr img' \<and> gel_shape img'"
    by (rule rectangle_drawn [OF white_canvas_shape _ c(1) c(1) c(2) c(3)]) simp
  then obtain a1 where r1: "rectangle white_canvas (50, 50) (550, 350) [240, 240, 240] = Inr a1"
    and s1: "gel_shape a1" by blast
  have "\<exists>img'. rectangle a1 (80, 70) (120, 90) [200, 200, 200] = Inr img' \<and> gel_shape img'"
    by (rule rectangle_drawn [OF s1 _ c(4) c(5) c(6) c(7)]) simp
  then obtain a2 where r2: "rectangle a1 (80, 70) (120, 90) [200, 200, 200] = Inr a2"
    and s2: "gel_shape a2" by blast
  have "\<exists>img'. rectangle a2 (480, 70) (520, 90) [200, 200, 200] = Inr img' \<and> gel_shape img'"
    by (rule rectangle_drawn [OF s2 _ c(8) c(5) c(9) c(7)]) simp
  then obtain a3 where r3: "rectangle a2 (480, 70) (520, 90) [200, 200, 200] = Inr a3"
    and s3: "gel_shape a3" by blast
  from bands_drawn [OF assms(1) assms(2) assms(4) s3]
  obtain a4 where r4: "(if frags \<noteq> []
                 then draw_bands ev (Max (set (map length frags))) 0 frags a3
                 else Inr a3) = Inr a4" and s4: "gel_shape a4" by blast
  from draw_ladder_drawn [OF s4, of 0 ladder ev] assms(3)
  obtain a5 where r5: "draw_ladder ev 0 ladder a4 = Inr a5" and s5: "gel_shape a5" by auto
  have "\<exists>img'. putText ev a5 (join ''+'' enzymes @ '' Digest'') (150, 380) 0.7 [0, 0, 0] 2 = Inr img'
          \<and> gel_shape img'"
    by (rule putText_drawn [OF s5 _ c(10) c(11)]) simp
  then obtain a6 where r6: "putText ev a5 (join ''+'' enzymes @ '' Digest'') (150, 380) 0.7 [0, 0, 0] 2
                            = Inr a6" and s6: "gel_shape a6" by blast
  have "\<exists>img'. putText ev a6 ''DNA Ladder'' (400, 380) 0.7 [0, 0, 0] 2 = Inr img' \<and> gel_shape img'"
    by (rule putText_drawn [OF s6 _ c(12) c(11)]) simp
  then obtain a7 where r7: "putText ev a6 ''DNA Ladder'' (400, 380) 0.7 [0, 0, 0] 2 = Inr a7"
    and s7: "gel_shape a7" by blast
  have "generate_gel_image frags enzymes ladder ev w =
             Inr (''gel_'' @ stamp ev @ ''.png'',
                  w\<lparr>static_dir := (static_dir w)(''gel_'' @ stamp ev @ ''.png'' \<mapsto> a7)\<rparr>)"
    unfolding generate_gel_image_def r1 and_then_Inr r2 r3 r4 r5 r6 r7 by (simp add: Let_def)
  with s7 show ?thesis by blast
qed

lemma example_env_in_range: "band_heights_in_range example_env"
proof -
  have "int (30 * a div b) \<le> 30" if "0 < b" and "a \<le> b" for a b :: nat
  proof -
    have "30 * a div b \<le> 30 * b div b" using that(2) by (intro div_le_mono) simp
    also have "\<dots> = 30" using that(1) by simp
    finally show ?thesis by simp
  qed
  then show ?thesis by (simp add: band_heights_in_range_def example_env_def)
qed

text \<open>
  Outside the data model, on a non-empty list whose fragments are all empty,
  \<open>max_len\<close> is 0 and the first band raises ZeroDivisionError. \<open>cut_dna\<close> never
  returns an empty fragment.
\<close>

lemma generate_gel_image_all_empty:
  "generate_gel_image [[]] enzymes ladder ev w = Inl ZeroDivisionError"
  by (simp add: generate_gel_image_def rectangle_def fits_c_int_def and_then_def)

text \<open>
  From the band with index 53687089 on, \<open>y_pos = 100 + 40 * i\<close> is above
  \<open>2147483647\<close>: a list that reaches this index makes a drawing call raise, whatever
  the rounding of the band heights.
\<close>

lemma draw_bands_overflow:
  assumes "max_len \<noteq> 0"
  shows "frags \<noteq> [] \<Longrightarrow> 53687090 \<le> i + length frags \<Longrightarrow>
         draw_bands ev max_len i frags img = Inl Cv2Error"
proof (induction frags arbitrary: i img)
  case Nil
  then show ?case by simp
next
  case (Cons frag rest)
  let ?bh = "max 5 (scaled ev (length frag) max_len)"
  let ?y = "100 + int i * 40"
  show ?case
  proof (cases "53687089 \<le> i")
    case True
    then have "\<not> fits_c_int ?y" by (simp add: fits_c_int_def)
    then have "rectangle img (150, ?y) (300, ?y + ?bh) [0, 0, 150] = Inl Cv2Error"
      by (simp add: rectangle_def)
    then show ?thesis using assms by (simp add: Let_def and_then_Inl)
  next
    case False
    then have rest: "rest \<noteq> []" "53687090 \<le> (i + 1) + length rest"
      using Cons.prems(2) by auto
    have "draw_bands ev max_len (i + 1) rest img2 = Inl Cv2Error" for img2
      using rest by (intro Cons.IH)
    then have later: "draw_bands ev max_len (Suc i) rest img2 = Inl Cv2Error" for img2
      by simp
    have "and_then (rectangle img (150, ?y) (300, ?y + ?bh) [0, 0, 150])
             (\<lambda>img1. and_then (putText ev img1 (str_nat (length frag) @ ''bp'')
                                  (310, ?y + ?bh div 2) 0.5 [0, 0, 200] 1)
                        (\<lambda>img2. draw_bands ev max_len (i + 1) rest img2)) = Inl Cv2Error"
      by (simp add: and_then_def later rectangle_def putText_def split: sum.splits)
    then show ?thesis using assms by (simp add: Let_def)
  qed
qed

text \<open>
  Claim C7, as the code has it. For every fragment list of the data model (no empty
  fragment) with at most 53687088 fragments, the empty list included, every enzyme list
  and every ladder of at most 42949671 sizes, the renderer does not fail, and the image
  it writes under the returned file name has 400 rows of 600 pixels of 3 channels: a
  band or a label that lies beyond the canvas is clipped and changes no dimension, as
  long as its coordinates fit a C \<open>int\<close>.
\<close>

theorem gel_image_600_by_400:
  assumes "[] \<notin> set frags" and "length frags \<le> 53687088"
    and "length ladder \<le> 42949671" and "band_heights_in_range ev"
  shows "\<exists>filename w' img.
           generate_gel_image frags enzymes ladder ev w = Inr (filename, w') \<and>
           static_dir w' filename = Some img \<and> gel_shape img"
proof -
  from generate_gel_image_result [OF assms, of enzymes w]
  obtain img where "gel_shape img" and
    "generate_gel_image frags enzymes ladder ev w =
       Inr (''gel_'' @ stamp ev @ ''.png'',
            w\<lparr>static_dir := (static_dir w)(''gel_'' @ stamp ev @ ''.png'' \<mapsto> img)\<rparr>)"
    by blast
  then show ?thesis by simp
qed

theorem gel_image_600_by_400_witness:
  "[] \<notin> set (replicate 12 ''GAATTC'') \<and> length (replicate 12 ''GAATTC'') \<le> 53687088 \<and>
   length DNA_LADDER \<le> 42949671 \<and> band_heights_in_range example_env \<and>
   (\<exists>filename w' img.
      generate_gel_image (replicate 12 ''GAATTC'') [''EcoRI''] DNA_LADDER example_env empty_world
        = Inr (filename, w') \<and>
      static_dir w' filename = Some img \<and> gel_shape img)"
proof -
  have h1: "[] \<notin> set (replicate 12 ''GAATTC'')" by simp
  have h2: "length (replicate 12 ''GAATTC'') \<le> 53687088" by simp
  have h3: "length DNA_LADDER \<le> 42949671" by (simp add: DNA_LADDER_def)
  note h4 = example_env_in_range
  from gel_image_600_by_400 [OF h1 h2 h3 h4] h1 h2 h3 h4 show ?thesis by blast
qed

text \<open>
  Claim C7 as stated (no fragment count makes the renderer fail) fails on a list of
  53687090 fragments of one base each: the band coordinates leave the C \<open>int\<close> range,
  the drawing call raises, and no image is written.
\<close>

theorem gel_image_overflow_counterexample:
  "[] \<notin> set (replicate 53687090 ''A'') \<and>
   generate_gel_image (replicate 53687090 ''A'') [''EcoRI''] DNA_LADDER example_env empty_world
     = Inl Cv2Error"
proof -
  let ?frags = "replicate 53687090 ''A''"
  have ne: "?frags \<noteq> []" by simp
  have m: "Max (set (map length ?frags)) = 1" by simp
  have "draw_bands example_env 1 0 ?frags img = Inl Cv2Error" for img
    by (rule draw_bands_overflow) (simp_all)
  then have "generate_gel_image ?frags [''EcoRI''] DNA_LADDER example_env empty_world
     = Inl Cv2Error"
    unfolding generate_gel_image_def using ne m
    by (simp add: and_then_def rectangle_def fits_c_int_def)
  moreover have "[] \<notin> set ?frags" by simp
  ultimately show ?thesis by blast
qed

subsection \<open>The request handler\<close>






lemma digest_and_render_invalid:
  assumes "invalid_enzymes (as_list ei) \<noteq> []"
  shows "digest_and_render s ei ev w =
           Inr (Status_400 (''Invalid enzymes: '' @ join '', '' (invalid_enzymes (as_list ei))), w)"
  using assms by (simp add: digest_and_render_def Let_def)

lemma digest_and_render_proceeds:
  assumes "invalid_enzymes (as_list ei) = []"
  shows "digest_and_render s ei ev w =
           and_then (generate_gel_image (cut_dna s (Names (as_list ei))) (as_list ei) DNA_LADDER ev
                       (called Call_generate_gel_image (called Call_cut_dna w)))
             (\<lambda>(image_name, w2).
                Inr (Status_200
                       \<lparr>dna_sequence = s, fragments = cut_dna s (Names (as_list ei)),
                        gel_image = image_name, enzyme_used = as_list ei,
                        ladder_sizes = DNA_LADDER\<rparr>,
                     w2))"
  using assms by (simp add: digest_and_render_def Let_def)

lemma digest_and_render_not_400:
  assumes "invalid_enzymes (as_list ei) = []"
  shows "digest_and_render s ei ev w \<noteq> Inr (Status_400 msg, w')"
  unfolding digest_and_render_proceeds [OF assms]
  by (auto simp: and_then_def split: sum.splits)


text \<open>
  When the sequence check passes, the handler goes on with the normalized sequence, or,
  when that is empty, with a generated one, after logging the generator call.
\<close>

lemma simulate_fingerprint_sequence_ok:
  assumes "normalized_sequence data = [] \<or> all_ATGC (normalized_sequence data)"
  shows "\<exists>s w1. simulate_fingerprint data ev w = digest_and_render s (enzyme_input data) ev w1 \<and>
           (w1 = w \<or> w1 = called Call_generate_dna_sequence w) \<and>
           (length s = length (normalized_sequence data) \<or>
            length s = nat (sequence_length data))"
proof (cases "normalized_sequence data = []")
  case True
  obtain s where "generate_dna_sequence (sequence_length data) (rnd ev) = Inr s"
    and "length s = nat (sequence_length data)"
    using generate_dna_sequence_length by blast
  then show ?thesis using True
    by (auto simp: simulate_fingerprint_def Let_def and_then_def)
next
  case False
  then show ?thesis using assms
    by (auto simp: simulate_fingerprint_def Let_def)
qed

lemma simulate_fingerprint_sequence_bad:
  assumes "normalized_sequence data \<noteq> []" and "\<not> all_ATGC (normalized_sequence data)"
  shows "simulate_fingerprint data ev w =
           Inr (Status_400 ''Invalid DNA sequence (only A, T, G, C allowed)'', w)"
  using assms by (simp add: simulate_fingerprint_def Let_def)

lemma invalid_enzymes_empty_iff: "invalid_enzymes es = [] \<longleftrightarrow> list_all in_ENZYMES es"
  by (simp add: invalid_enzymes_def filter_empty_conv list_all_iff)



lemma handler_rejects_enzymes:
  assumes "normalized_sequence data = [] \<or> all_ATGC (normalized_sequence data)"
    and "\<not> list_all in_ENZYMES (as_list (enzyme_input data))"
  shows "\<exists>w'. simulate_fingerprint data ev w =
                 Inr (Status_400 (''Invalid enzymes: '' @
                        join '', '' (invalid_enzymes (as_list (enzyme_input data)))), w') \<and>
               (w' = w \<or> w' = called Call_generate_dna_sequence w)"
proof -
  from simulate_fingerprint_sequence_ok [OF assms(1), where ev = ev and w = w]
  obtain s w1 where run: "simulate_fingerprint data ev w = digest_and_render s (enzyme_input data) ev w1"
    and w1: "w1 = w \<or> w1 = called Call_generate_dna_sequence w"
    by blast
  have "invalid_enzymes (as_list (enzyme_input data)) \<noteq> []"
    using assms(2) by (simp add: invalid_enzymes_empty_iff)
  from digest_and_render_invalid [OF this, where s = s and ev = ev and w = w1] run w1
  show ?thesis by auto
qed


lemma handler_never_400:
  assumes "normalized_sequence data = [] \<or> all_ATGC (normalized_sequence data)"
    and "list_all in_ENZYMES (as_list (enzyme_input data))"
  shows "simulate_fingerprint data ev w \<noteq> Inr (Status_400 msg, w')"
proof -
  from simulate_fingerprint_sequence_ok [OF assms(1), where ev = ev and w = w]
  obtain s w1 where run: "simulate_fingerprint data ev w = digest_and_render s (enzyme_input data) ev w1"
    by blast
  have "invalid_enzymes (as_list (enzyme_input data)) = []"
    using assms(2) by (simp add: invalid_enzymes_empty_iff)
  from digest_and_render_not_400 [OF this] run show ?thesis by simp
qed








text \<open>
  Claim C10. Whenever the handler answers with status 400, the output directory is
  unchanged and neither \<open>cut_dna\<close> nor \<open>generate_gel_image\<close> has been called: the log
  of calls is unchanged, or extended by the generator call alone (a request without a
  sequence and with an unrecognized enzyme). The message is one of the two validation
  errors.
\<close>

theorem validation_error_no_output:
  assumes "simulate_fingerprint data ev w = Inr (Status_400 msg, w')"
  shows "static_dir w' = static_dir w \<and>
         (calls w' = calls w \<or> calls w' = calls w @ [Call_generate_dna_sequence]) \<and>
         (msg = ''Invalid DNA sequence (only A, T, G, C allowed)'' \<or>
          msg = ''Invalid enzymes: '' @ join '', '' (invalid_enzymes (as_list (enzyme_input data))))"
proof (cases "normalized_sequence data = [] \<or> all_ATGC (normalized_sequence data)")
  case False
  then have "simulate_fingerprint data ev w =
           Inr (Status_400 ''Invalid DNA sequence (only A, T, G, C allowed)'', w)"
    by (simp add: simulate_fingerprint_sequence_bad)
  with assms show ?thesis by simp
next
  case True
  show ?thesis
  proof (cases "list_all in_ENZYMES (as_list (enzyme_input data))")
    case True
    from handler_never_400
      [OF \<open>normalized_sequence data = [] \<or> all_ATGC (normalized_sequence data)\<close> True]
    have "simulate_fingerprint data ev w \<noteq> Inr (Status_400 msg, w')" .
    with assms show ?thesis by simp
  next
    case False
    from handler_rejects_enzymes
      [OF \<open>normalized_sequence data = [] \<or> all_ATGC (normalized_sequence data)\<close> False,
        where ev = ev and w = w]
    obtain w2 where "simulate_fingerprint data ev w =
                 Inr (Status_400 (''Invalid enzymes: '' @
                        join '', '' (invalid_enzymes (as_list (enzyme_input data)))), w2)"
      and "w2 = w \<or> w2 = called Call_generate_dna_sequence w"
      by blast
    with assms show ?thesis by (auto simp: called_def)
  qed
qed

theorem validation_error_no_output_witness:
  "simulate_fingerprint
     \<lparr>req_dna_sequence = None, req_enzyme = Some (Name ''Foo''), req_length = Some 5\<rparr>
     example_env empty_world
   = Inr (Status_400 ''Invalid enzymes: Foo'', called Call_generate_dna_sequence empty_world) \<and>
   static_dir (called Call_generate_dna_sequence empty_world) = static_dir empty_world \<and>
   calls (called Call_generate_dna_sequence empty_world) = [Call_generate_dna_sequence]"
proof -
  let ?r = "\<lparr>req_dna_sequence = None, req_enzyme = Some (Name ''Foo''), req_length = Some 5\<rparr>"
  have n: "normalized_sequence ?r = []" by code_simp
  have g: "generate_dna_sequence 5 (\<lambda>i. Base 0) = Inr ''AAAAA''" by code_simp
  have i: "invalid_enzymes [''Foo''] = [''Foo'']"
    by (simp add: invalid_enzymes_def in_ENZYMES_def ENZYMES_def)
  have run: "simulate_fingerprint ?r example_env empty_world
     = Inr (Status_400 ''Invalid enzymes: Foo'', called Call_generate_dna_sequence empty_world)"
    by (simp add: simulate_fingerprint_def n sequence_length_def enzyme_input_def example_env_def g
        and_then_def digest_and_render_def i)
  from validation_error_no_output [OF run] run
  show ?thesis by (simp add: empty_world_def called_def)
qed

end
